theory Spec2Isabelle
  imports Main
begin

section \<open>Python strings and the Unicode tables the pipeline consults\<close>

text \<open>
  A Python \<^verbatim>\<open>str\<close> is a sequence of Unicode code points, so it is modelled as a list of
  naturals (\<^verbatim>\<open>ord(c)\<close> is the element itself). An 8-bit \<open>char\<close> would not do: the
  accent handling of \<^verbatim>\<open>generate_name_variants\<close> compares \<^verbatim>\<open>ord(c)\<close> with 127 and
  meets combining marks such as U+0301.
\<close>

type_synonym str = "nat list"

definition str_of :: "string \<Rightarrow> str" where
  "str_of s = map of_char s"

text \<open>
  \<^verbatim>\<open>str.lower\<close>, \<^verbatim>\<open>str.isspace\<close> (which decides what \<^verbatim>\<open>str.strip\<close> removes),
  \<^verbatim>\<open>unicodedata.normalize("NFD", _)\<close> and \<^verbatim>\<open>unicodedata.category(_) == "Mn"\<close> are
  tables of the Python runtime, not code of the pipeline. The model takes them as a
  parameter; every general theorem below holds for any tables whatsoever.
\<close>

record unicode_db =
  str_lower :: "str \<Rightarrow> str"
  isspace :: "nat \<Rightarrow> bool"
  normalize_NFD :: "str \<Rightarrow> str"
  category_Mn :: "nat \<Rightarrow> bool"

definition strip :: "unicode_db \<Rightarrow> str \<Rightarrow> str" where
  \<comment> \<open>\<^verbatim>\<open>s.strip()\<close>: leading and trailing whitespace removed\<close>
  "strip U s = rev (dropWhile (isspace U) (rev (dropWhile (isspace U) s)))"

definition hyphen :: nat where
  "hyphen = 45"

definition remove_hyphens :: "str \<Rightarrow> str" where
  \<comment> \<open>\<^verbatim>\<open>first.replace("-", "")\<close>\<close>
  "remove_hyphens s = filter (\<lambda>c. c \<noteq> hyphen) s"

definition before_first_hyphen :: "str \<Rightarrow> str" where
  \<comment> \<open>\<^verbatim>\<open>first.split("-")[0]\<close>: the whole string when it has no hyphen\<close>
  "before_first_hyphen s = takeWhile (\<lambda>c. c \<noteq> hyphen) s"

definition slice_upto :: "int \<Rightarrow> 'a list \<Rightarrow> 'a list" where
  \<comment> \<open>\<^verbatim>\<open>xs[:n]\<close>: a negative \<open>n\<close> counts from the end\<close>
  "slice_upto n xs =
     (if 0 \<le> n then take (nat n) xs else take (nat (int (length xs) + n)) xs)"

subsection \<open>A fragment of the Unicode tables, for concrete runs\<close>

text \<open>
  The tables below agree with Unicode on strings of code points up to U+00FF
  (Basic Latin and Latin-1 Supplement); the general category is right up to U+036F, the
  end of the Combining Diacritical Marks block. They are used only to run the model on
  concrete names.
\<close>

definition latin1_lower :: "nat \<Rightarrow> nat" where
  "latin1_lower c =
     (if 65 \<le> c \<and> c \<le> 90 then c + 32
      else if 192 \<le> c \<and> c \<le> 222 \<and> c \<noteq> 215 then c + 32
      else c)"

definition latin1_isspace :: "nat \<Rightarrow> bool" where
  "latin1_isspace c = (c \<in> set [9, 10, 11, 12, 13, 28, 29, 30, 31, 32, 133, 160])"

definition latin1_decomposition :: "(nat \<times> nat list) list" where
  "latin1_decomposition =
    [(192, [65, 768]), (193, [65, 769]), (194, [65, 770]), (195, [65, 771]),
     (196, [65, 776]), (197, [65, 778]), (199, [67, 807]),
     (200, [69, 768]), (201, [69, 769]), (202, [69, 770]), (203, [69, 776]),
     (204, [73, 768]), (205, [73, 769]), (206, [73, 770]), (207, [73, 776]),
     (209, [78, 771]),
     (210, [79, 768]), (211, [79, 769]), (212, [79, 770]), (213, [79, 771]),
     (214, [79, 776]),
     (217, [85, 768]), (218, [85, 769]), (219, [85, 770]), (220, [85, 776]),
     (221, [89, 769]),
     (224, [97, 768]), (225, [97, 769]), (226, [97, 770]), (227, [97, 771]),
     (228, [97, 776]), (229, [97, 778]), (231, [99, 807]),
     (232, [101, 768]), (233, [101, 769]), (234, [101, 770]), (235, [101, 776]),
     (236, [105, 768]), (237, [105, 769]), (238, [105, 770]), (239, [105, 776]),
     (241, [110, 771]),
     (242, [111, 768]), (243, [111, 769]), (244, [111, 770]), (245, [111, 771]),
     (246, [111, 776]),
     (249, [117, 768]), (250, [117, 769]), (251, [117, 770]), (252, [117, 776]),
     (253, [121, 769]), (255, [121, 776])]"

definition latin1_nfd :: "str \<Rightarrow> str" where
  "latin1_nfd s =
     concat (map (\<lambda>c. case map_of latin1_decomposition c of None \<Rightarrow> [c] | Some d \<Rightarrow> d) s)"

definition latin1_db :: unicode_db where
  "latin1_db =
     \<lparr> str_lower = map latin1_lower,
       isspace = latin1_isspace,
       normalize_NFD = latin1_nfd,
       category_Mn = (\<lambda>c. 768 \<le> c \<and> c \<le> 879) \<rparr>"

section \<open>Order-preserving removal of duplicates\<close>

text \<open>
  The source removes duplicates three times with the same loop:
  \<^verbatim>\<open>
  seen = set()
  unique = []
  for x in xs:
      if x not in seen:
          seen.add(x)
          unique.append(x)
  \<close>
\<close>

fun dedup_loop :: "'a set \<Rightarrow> 'a list \<Rightarrow> 'a list \<Rightarrow> 'a list" where
  "dedup_loop seen unique [] = unique"
| "dedup_loop seen unique (x # xs) =
     (if x \<in> seen then dedup_loop seen unique xs
      else dedup_loop (insert x seen) (unique @ [x]) xs)"

definition remove_duplicates :: "'a list \<Rightarrow> 'a list" where
  "remove_duplicates xs = dedup_loop {} [] xs"

text \<open>
  What the specification asks of it, in its own words: every element is kept once, at its
  first occurrence.
\<close>

fun first_seen :: "'a list \<Rightarrow> 'a list" where
  "first_seen [] = []"
| "first_seen (x # xs) = x # filter (\<lambda>y. y \<noteq> x) (first_seen xs)"

section \<open>Name variants\<close>

definition ascii_fold :: "unicode_db \<Rightarrow> str \<Rightarrow> str" where
  \<comment> \<open>\<^verbatim>\<open>"".join(c for c in unicodedata.normalize("NFD", s) if unicodedata.category(c) != "Mn")\<close>\<close>
  "ascii_fold U s = filter (\<lambda>c. \<not> category_Mn U c) (normalize_NFD U s)"

definition has_non_ascii :: "str \<Rightarrow> bool" where
  \<comment> \<open>\<^verbatim>\<open>any(ord(c) > 127 for c in s)\<close>\<close>
  "has_non_ascii s = list_ex (\<lambda>c. 127 < c) s"

definition generate_name_variants :: "unicode_db \<Rightarrow> str \<Rightarrow> str \<Rightarrow> (str \<times> str) list" where
  "generate_name_variants U first last' =
     (let variants =
            [(first, last'), (remove_hyphens first, last'), (before_first_hyphen first, last')];
          variants =
            (if has_non_ascii (first @ last')
             then variants @ [(ascii_fold U first, ascii_fold U last')]
             else variants)
      in remove_duplicates variants)"

section \<open>Email patterns\<close>

definition at_sign :: nat where
  "at_sign = 64"

definition address :: "str \<Rightarrow> str \<Rightarrow> str" where
  \<comment> \<open>the f-string joining a local part, the at sign and the domain\<close>
  "address local domain = local @ [at_sign] @ domain"

definition local_parts :: "str \<Rightarrow> str \<Rightarrow> str list" where
  \<comment> \<open>the nine local parts, in the order of the list \<^verbatim>\<open>patterns\<close>; \<open>take 1 s\<close> is
      \<^verbatim>\<open>s[0]\<close>, which the source evaluates on non-empty strings only\<close>
  "local_parts first last' =
     [first,
      first @ str_of ''.'' @ last',
      first @ last',
      take 1 first @ str_of ''.'' @ last',
      take 1 first @ last',
      first @ str_of ''_'' @ last',
      first @ str_of ''-'' @ last',
      first @ str_of ''.'' @ take 1 last',
      last' @ str_of ''.'' @ first]"

definition generate_email_patterns ::
  "unicode_db \<Rightarrow> int \<Rightarrow> str \<Rightarrow> str \<Rightarrow> str \<Rightarrow> str list" where
  \<comment> \<open>the second argument is the setting \<^verbatim>\<open>MAX_PATTERNS_PER_LEAD\<close>\<close>
  "generate_email_patterns U max_patterns first_name last_name domain =
     (let first = strip U (str_lower U first_name);
          last' = strip U (str_lower U last_name)
      in if first = [] \<or> last' = [] \<or> domain = [] then []
         else let patterns = map (\<lambda>l. address l domain) (local_parts first last')
              in slice_upto max_patterns (remove_duplicates patterns))"

definition lead_patterns :: "unicode_db \<Rightarrow> int \<Rightarrow> str \<Rightarrow> str \<Rightarrow> str \<Rightarrow> str list" where
  \<comment> \<open>the list \<^verbatim>\<open>unique_patterns\<close> of \<^verbatim>\<open>_validate_leads\<close>: the patterns of every name
      variant, concatenated, duplicates removed\<close>
  "lead_patterns U max_patterns first_name last_name domain =
     remove_duplicates
       (concat (map (\<lambda>(first_var, last_var).
                       generate_email_patterns U max_patterns first_var last_var domain)
                    (generate_name_variants U first_name last_name)))"

section \<open>The verification service\<close>

text \<open>
  \<^verbatim>\<open>ReacherClient.validate_email\<close> returns the JSON object of the service as a dict.
  The record below holds the keys the pipeline reads or writes, each optional as a dict
  key is; \<open>None\<close> is an absent key.
\<close>

record smtp_block =
  is_deliverable :: "bool option"

record misc_block =
  is_disposable :: "bool option"
  is_role_account :: "bool option"

record mx_block =
  records :: "str list option"

record response =
  is_reachable :: "str option"
  smtp :: "smtp_block option"
  misc :: "misc_block option"
  mx :: "mx_block option"
  is_reachable_smtp :: "bool option"
  can_connect_smtp :: "bool option"
  error :: "str option"
  email :: "str option"



definition reachability :: "response \<Rightarrow> str" where
  \<comment> \<open>\<^verbatim>\<open>result.get("is_reachable", "invalid")\<close>\<close>
  "reachability result =
     (case is_reachable result of None \<Rightarrow> str_of ''invalid'' | Some s \<Rightarrow> s)"

definition smtp_deliverable :: "response \<Rightarrow> bool" where
  \<comment> \<open>\<^verbatim>\<open>result.get("smtp", {}).get("is_deliverable", False)\<close>\<close>
  "smtp_deliverable result =
     (case smtp result of
        None \<Rightarrow> False
      | Some smtp_data \<Rightarrow> (case is_deliverable smtp_data of None \<Rightarrow> False | Some d \<Rightarrow> d))"

section \<open>The search loop of \<^verbatim>\<open>_validate_leads\<close>\<close>

text \<open>
  The loop's variables are a record, threaded through the iterations. The field
  \<open>events\<close> is not a variable of the source: it logs, in order, every call of
  \<^verbatim>\<open>validate_email\<close> and every \<^verbatim>\<open>time.sleep(VALIDATION_DELAY_SECONDS)\<close>, so that
  claims about which candidates are tried and when the delay is applied can be stated.
\<close>

datatype event = Validate str | Sleep

record search_state =
  best_email :: "str option"
  best_status :: "str option"
  best_result :: "response option"
  patterns_tested :: nat
  patterns_validated :: nat
  events :: "event list"

definition initial_state :: search_state where
  "initial_state =
     \<lparr> best_email = None, best_status = None, best_result = None,
       patterns_tested = 0, patterns_validated = 0, events = [] \<rparr>"

definition rate_limit :: "nat \<Rightarrow> nat \<Rightarrow> search_state \<Rightarrow> search_state" where
  \<comment> \<open>\<^verbatim>\<open>if pattern_idx < len(unique_patterns): time.sleep(VALIDATION_DELAY_SECONDS)\<close>\<close>
  "rate_limit pattern_idx n_total st =
     (if pattern_idx < n_total then st\<lparr>events := events st @ [Sleep]\<rparr> else st)"

datatype flow = Continue | Break

definition loop_body ::
  "bool \<Rightarrow> (str \<Rightarrow> response) \<Rightarrow> nat \<Rightarrow> nat \<Rightarrow> str \<Rightarrow> search_state \<Rightarrow> flow \<times> search_state" where
  \<comment> \<open>one iteration; the first argument is the setting \<^verbatim>\<open>INCLUDE_RISKY\<close>, \<open>n_total\<close> is
      \<^verbatim>\<open>len(unique_patterns)\<close>\<close>
  "loop_body include_risky verify n_total pattern_idx pattern st =
     (let st = st\<lparr>patterns_tested := pattern_idx,
                  events := events st @ [Validate pattern]\<rparr>;
          result = (verify pattern)\<lparr>email := Some pattern\<rparr>;
          status = reachability result;
          deliverable = smtp_deliverable result;
          st = (if deliverable
                then st\<lparr>patterns_validated := patterns_validated st + 1\<rparr> else st)
      in if status = str_of ''invalid'' \<or> \<not> deliverable
         then (Continue, rate_limit pattern_idx n_total st)
         else if status = str_of ''safe''
         then (Break, st\<lparr>best_email := Some pattern, best_status := Some status,
                         best_result := Some result\<rparr>)
         else let st = (if status = str_of ''risky'' \<and> best_status st \<noteq> Some (str_of ''safe'')
                        then (if include_risky
                              then st\<lparr>best_email := Some pattern, best_status := Some status,
                                      best_result := Some result\<rparr>
                              else st)
                        else st)
              in (Continue, rate_limit pattern_idx n_total st))"

fun validate_loop ::
  "bool \<Rightarrow> (str \<Rightarrow> response) \<Rightarrow> nat \<Rightarrow> nat \<Rightarrow> str list \<Rightarrow> search_state \<Rightarrow> search_state" where
  "validate_loop include_risky verify n_total pattern_idx [] st = st"
| "validate_loop include_risky verify n_total pattern_idx (pattern # rest) st =
     (case loop_body include_risky verify n_total pattern_idx pattern st of
        (Break, st') \<Rightarrow> st'
      | (Continue, st') \<Rightarrow> validate_loop include_risky verify n_total (pattern_idx + 1) rest st')"

definition search :: "bool \<Rightarrow> (str \<Rightarrow> response) \<Rightarrow> str list \<Rightarrow> search_state" where
  \<comment> \<open>\<^verbatim>\<open>for pattern_idx, pattern in enumerate(unique_patterns, 1): ...\<close> from the initial
      values of the five variables\<close>
  "search include_risky verify unique_patterns =
     validate_loop include_risky verify (length unique_patterns) 1 unique_patterns
       initial_state"

section \<open>The output record of a lead\<close>

definition or_default :: "str option \<Rightarrow> str \<Rightarrow> str" where
  \<comment> \<open>\<^verbatim>\<open>x or d\<close> for an optional string: \<^verbatim>\<open>None\<close> and \<^verbatim>\<open>""\<close> are falsy\<close>
  "or_default x d = (case x of None \<Rightarrow> d | Some s \<Rightarrow> if s = [] then d else s)"

record lead_record =
  rec_first_name :: str
  rec_last_name :: str
  rec_company_domain :: str
  rec_validated_email :: str
  rec_validation_status :: str
  rec_is_reachable :: str
  rec_is_reachable_smtp :: bool
  rec_patterns_tested :: nat
  rec_patterns_validated :: nat

definition build_record :: "str \<Rightarrow> str \<Rightarrow> str \<Rightarrow> search_state \<Rightarrow> lead_record" where
  \<comment> \<open>the dict \<^verbatim>\<open>record\<close>, without the columns copied from \<^verbatim>\<open>misc\<close> and \<^verbatim>\<open>mx\<close> and
      those passed through from the input row\<close>
  "build_record first_name last_name domain st =
     \<lparr> rec_first_name = first_name,
       rec_last_name = last_name,
       rec_company_domain = domain,
       rec_validated_email = or_default (best_email st) [],
       rec_validation_status = or_default (best_status st) (str_of ''none_found''),
       rec_is_reachable =
         (case best_result st of
            None \<Rightarrow> []
          | Some r \<Rightarrow> (case is_reachable r of None \<Rightarrow> [] | Some s \<Rightarrow> s)),
       rec_is_reachable_smtp =
         (case best_result st of None \<Rightarrow> False | Some r \<Rightarrow> smtp_deliverable r),
       rec_patterns_tested = patterns_tested st,
       rec_patterns_validated = patterns_validated st \<rparr>"

definition validate_lead ::
  "unicode_db \<Rightarrow> int \<Rightarrow> bool \<Rightarrow> (str \<Rightarrow> response) \<Rightarrow> str \<times> str \<times> str \<Rightarrow> lead_record option" where
  \<comment> \<open>the body of \<^verbatim>\<open>for idx, lead in leads_df.iterrows()\<close>; \<open>None\<close> is the skipped lead\<close>
  "validate_lead U max_patterns include_risky verify lead =
     (case lead of (raw_first, raw_last, raw_domain) \<Rightarrow>
        let first_name = strip U raw_first;
            last_name = strip U raw_last;
            domain = strip U raw_domain
        in if first_name = [] \<or> last_name = [] \<or> domain = [] then None
           else Some (build_record first_name last_name domain
                        (search include_risky verify
                           (lead_patterns U max_patterns first_name last_name domain))))"

section \<open>Notions of the specification\<close>

text \<open>
  The specification's terms for a verification result, used to state the claims:
  a result is a valid hit when it is deliverable and its reachability is not
  \<^verbatim>\<open>invalid\<close>; a safe (risky) hit is a deliverable result whose reachability is
  \<^verbatim>\<open>safe\<close> (\<^verbatim>\<open>risky\<close>).
\<close>

definition valid_hit :: "response \<Rightarrow> bool" where
  "valid_hit result =
     (smtp_deliverable result \<and> reachability result \<noteq> str_of ''invalid'')"

definition safe_hit :: "response \<Rightarrow> bool" where
  "safe_hit result = (smtp_deliverable result \<and> reachability result = str_of ''safe'')"

definition risky_hit :: "response \<Rightarrow> bool" where
  "risky_hit result = (smtp_deliverable result \<and> reachability result = str_of ''risky'')"

text \<open>
  The schedule the specification prescribes for a run that tries the candidates \<open>cs\<close>:
  one call per candidate, a delay between two consecutive calls and nowhere else.
\<close>

fun delays_between :: "str list \<Rightarrow> event list" where
  "delays_between [] = []"
| "delays_between [c] = [Validate c]"
| "delays_between (c # d # cs) = Validate c # Sleep # delays_between (d # cs)"

text \<open>
  The states a run passes through: the value of the loop's variables after each
  iteration, in order. It follows \<open>validate_loop\<close> equation by equation.
\<close>

fun loop_states ::
  "bool \<Rightarrow> (str \<Rightarrow> response) \<Rightarrow> nat \<Rightarrow> nat \<Rightarrow> str list \<Rightarrow> search_state \<Rightarrow> search_state list" where
  "loop_states include_risky verify n_total pattern_idx [] st = []"
| "loop_states include_risky verify n_total pattern_idx (pattern # rest) st =
     (case loop_body include_risky verify n_total pattern_idx pattern st of
        (Break, st') \<Rightarrow> [st']
      | (Continue, st') \<Rightarrow>
          st' # loop_states include_risky verify n_total (pattern_idx + 1) rest st')"

definition search_states :: "bool \<Rightarrow> (str \<Rightarrow> response) \<Rightarrow> str list \<Rightarrow> search_state list" where
  "search_states include_risky verify unique_patterns =
     initial_state #
     loop_states include_risky verify (length unique_patterns) 1 unique_patterns initial_state"

text \<open>
  What the specification requires of the best candidate held in a state of a run over
  the candidates \<open>cs\<close>: either nothing is held, or the stored result is the reply to
  the stored candidate, a valid hit, and the stored status is its reachability, which is
  \<^verbatim>\<open>safe\<close> or \<^verbatim>\<open>risky\<close>.
\<close>

definition best_ok :: "(str \<Rightarrow> response) \<Rightarrow> str list \<Rightarrow> search_state \<Rightarrow> bool" where
  "best_ok verify cs st =
     (case best_result st of
        None \<Rightarrow> best_email st = None \<and> best_status st = None
      | Some r \<Rightarrow>
          valid_hit r \<and>
          list_ex (\<lambda>c. best_email st = Some c \<and> r = (verify c)\<lparr>email := Some c\<rparr>) cs \<and>
          best_status st = Some (reachability r) \<and>
          (reachability r = str_of ''safe'' \<or> reachability r = str_of ''risky''))"

subsection \<open>Replies of the service, for concrete runs\<close>

definition reply :: "string \<Rightarrow> bool \<Rightarrow> response" where
  \<comment> \<open>a reply of the service with the given \<^verbatim>\<open>is_reachable\<close> and \<^verbatim>\<open>smtp.is_deliverable\<close>\<close>
  "reply status deliverable =
     \<lparr> is_reachable = Some (str_of status),
       smtp = Some \<lparr> is_deliverable = Some deliverable \<rparr>,
       misc = None, mx = None,
       is_reachable_smtp = None, can_connect_smtp = None,
       error = None, email = None \<rparr>"

definition abc_oracle :: "str \<Rightarrow> response" where
  \<comment> \<open>risky and deliverable for \<^verbatim>\<open>a@x.io\<close>, safe and deliverable for every other address\<close>
  "abc_oracle addr =
     (if addr = str_of ''a@x.io'' then reply ''risky'' True else reply ''safe'' True)"

definition risky_oracle :: "str \<Rightarrow> response" where
  \<comment> \<open>a catch-all domain: every address is risky and deliverable\<close>
  "risky_oracle addr = reply ''risky'' True"


section \<open>Auxiliary facts\<close>

subsection \<open>String literals, record fields, duplicates\<close>

lemma status_literals:
  "str_of ''safe'' \<noteq> str_of ''invalid''" "str_of ''risky'' \<noteq> str_of ''invalid''"
  "str_of ''safe'' \<noteq> str_of ''risky''" "str_of ''risky'' \<noteq> str_of ''safe''"
  "str_of ''invalid'' \<noteq> str_of ''safe''" "str_of ''invalid'' \<noteq> str_of ''risky''"
  "str_of ''safe'' \<noteq> []" "str_of ''risky'' \<noteq> []"
  "str_of ''safe'' \<noteq> str_of ''none_found''" "str_of ''risky'' \<noteq> str_of ''none_found''"
  by (simp_all add: str_of_def)

lemma reply_fields [simp]:
  "reachability (reply s d) = str_of s" "smtp_deliverable (reply s d) = d"
  by (simp_all add: reply_def reachability_def smtp_deliverable_def)

lemma reachability_email [simp]: "reachability (r\<lparr>email := e\<rparr>) = reachability r"
  by (simp add: reachability_def)

lemma smtp_deliverable_email [simp]: "smtp_deliverable (r\<lparr>email := e\<rparr>) = smtp_deliverable r"
  by (simp add: smtp_deliverable_def)

lemma set_first_seen [simp]: "set (first_seen xs) = set xs"
  by (induction xs) auto

lemma distinct_first_seen [simp]: "distinct (first_seen xs)"
  by (induction xs) auto

lemma dedup_loop_first_seen:
  "dedup_loop seen unique xs = unique @ filter (\<lambda>x. x \<notin> seen) (first_seen xs)"
proof (induction xs arbitrary: seen unique)
  case Nil
  show ?case by simp
next
  case (Cons x xs)
  show ?case
  proof (cases "x \<in> seen")
    case True
    have "filter (\<lambda>y. y \<notin> seen) (filter (\<lambda>y. y \<noteq> x) (first_seen xs)) = filter (\<lambda>y. y \<notin> seen) (first_seen xs)"
      using True by (auto simp: filter_filter intro: filter_cong)
    with True Cons show ?thesis by simp
  next
    case False
    have "filter (\<lambda>y. y \<notin> insert x seen) (first_seen xs) = filter (\<lambda>y. y \<notin> seen) (filter (\<lambda>y. y \<noteq> x) (first_seen xs))"
      by (auto simp: filter_filter intro: filter_cong)
    with False Cons show ?thesis by simp
  qed
qed

lemma remove_duplicates_first_seen: "remove_duplicates xs = first_seen xs"
  by (simp add: remove_duplicates_def dedup_loop_first_seen)

subsection \<open>One iteration, and runs without a safe hit\<close>

lemma loop_body_safe:
  assumes "safe_hit (verify p)"
  shows "loop_body ir verify n idx p st =
    (Break, st\<lparr>patterns_tested := idx, events := events st @ [Validate p],
               patterns_validated := patterns_validated st + 1,
               best_email := Some p, best_status := Some (str_of ''safe''),
               best_result := Some ((verify p)\<lparr>email := Some p\<rparr>)\<rparr>)"
  using assms by (simp add: loop_body_def safe_hit_def Let_def status_literals)

lemma loop_body_not_safe:
  assumes "\<not> safe_hit (verify p)" 
  shows "loop_body ir verify n idx p st =
    (Continue,
     rate_limit idx n
      (if ir \<and> risky_hit (verify p) \<and> best_status st \<noteq> Some (str_of ''safe'')
       then st\<lparr>patterns_tested := idx, events := events st @ [Validate p],
               patterns_validated := patterns_validated st + 1,
               best_email := Some p, best_status := Some (str_of ''risky''),
               best_result := Some ((verify p)\<lparr>email := Some p\<rparr>)\<rparr>
       else st\<lparr>patterns_tested := idx, events := events st @ [Validate p],
               patterns_validated := patterns_validated st + (if smtp_deliverable (verify p) then 1 else 0)\<rparr>))"
  using assms by (auto simp add: loop_body_def safe_hit_def risky_hit_def Let_def status_literals)


lemma loop_body_not_safe_flow:
  "\<not> safe_hit (verify p) \<Longrightarrow> fst (loop_body ir verify n idx p st) = Continue"
  by (simp add: loop_body_not_safe)

lemma validate_loop_Cons_not_safe:
  "\<not> safe_hit (verify p) \<Longrightarrow>
   validate_loop ir verify n idx (p # ps) st =
   validate_loop ir verify n (idx + 1) ps (snd (loop_body ir verify n idx p st))"
  by (simp add: loop_body_not_safe)

lemma validate_loop_Cons_safe:
  "safe_hit (verify p) \<Longrightarrow>
   validate_loop ir verify n idx (p # ps) st = snd (loop_body ir verify n idx p st)"
  by (simp add: loop_body_safe)

lemma validate_loop_append:
  "\<forall>p\<in>set pre. \<not> safe_hit (verify p) \<Longrightarrow>
   validate_loop ir verify n idx (pre @ qs) st =
   validate_loop ir verify n (idx + length pre) qs (validate_loop ir verify n idx pre st)"
proof (induction pre arbitrary: idx st)
  case Nil
  show ?case by simp
next
  case (Cons p pre)
  then have "\<not> safe_hit (verify p)" and rest: "\<forall>p\<in>set pre. \<not> safe_hit (verify p)" by simp_all
  then show ?case
    using Cons.IH [OF rest, of "idx + 1"]
    by (simp add: validate_loop_Cons_not_safe del: validate_loop.simps)
qed

lemma rate_limit_fields [simp]:
  "patterns_tested (rate_limit idx n st) = patterns_tested st"
  "patterns_validated (rate_limit idx n st) = patterns_validated st"
  "best_email (rate_limit idx n st) = best_email st"
  "best_status (rate_limit idx n st) = best_status st"
  "best_result (rate_limit idx n st) = best_result st"
  "events (rate_limit idx n st) = events st @ (if idx < n then [Sleep] else [])"
  by (simp_all add: rate_limit_def)

lemma tested_not_safe:
  "\<forall>p\<in>set ps. \<not> safe_hit (verify p) \<Longrightarrow>
   patterns_tested (validate_loop ir verify n idx ps st) =
     (if ps = [] then patterns_tested st else idx + length ps - 1)"
proof (induction ps arbitrary: idx st)
  case Nil
  show ?case by simp
next
  case (Cons p ps)
  then have p: "\<not> safe_hit (verify p)" and rest: "\<forall>p\<in>set ps. \<not> safe_hit (verify p)" by simp_all
  show ?case
    using Cons.IH [OF rest, of "idx + 1"] p
    by (simp add: validate_loop_Cons_not_safe loop_body_not_safe del: validate_loop.simps)
qed

lemma validated_not_safe:
  "\<forall>p\<in>set ps. \<not> safe_hit (verify p) \<Longrightarrow>
   patterns_validated (validate_loop ir verify n idx ps st) =
     patterns_validated st + length (filter (\<lambda>p. smtp_deliverable (verify p)) ps)"
proof (induction ps arbitrary: idx st)
  case Nil
  show ?case by simp
next
  case (Cons p ps)
  then have p: "\<not> safe_hit (verify p)" and rest: "\<forall>p\<in>set ps. \<not> safe_hit (verify p)" by simp_all
  show ?case
    using Cons.IH [OF rest, of "idx + 1"] p
    by (simp add: validate_loop_Cons_not_safe loop_body_not_safe risky_hit_def del: validate_loop.simps)
qed

lemma events_not_safe_inner:
  "\<forall>p\<in>set ps. \<not> safe_hit (verify p) \<Longrightarrow> idx + length ps \<le> n \<Longrightarrow>
   events (validate_loop ir verify n idx ps st) =
     events st @ concat (map (\<lambda>p. [Validate p, Sleep]) ps)"
proof (induction ps arbitrary: idx st)
  case Nil
  show ?case by simp
next
  case (Cons p ps)
  then have p: "\<not> safe_hit (verify p)" and rest: "\<forall>p\<in>set ps. \<not> safe_hit (verify p)" 
    and le: "(idx + 1) + length ps \<le> n" by simp_all
  show ?case
    using Cons.IH [OF rest le] le p
    by (simp add: validate_loop_Cons_not_safe loop_body_not_safe del: validate_loop.simps)
qed

lemma delays_between_snoc:
  "delays_between (ps @ [c]) = concat (map (\<lambda>p. [Validate p, Sleep]) ps) @ [Validate c]"
  by (induction ps rule: delays_between.induct) simp_all

lemma events_not_safe_final:
  "\<forall>p\<in>set ps. \<not> safe_hit (verify p) \<Longrightarrow> idx + length ps = n + 1 \<Longrightarrow>
   events (validate_loop ir verify n idx ps st) = events st @ delays_between ps"
proof (induction ps arbitrary: idx st rule: delays_between.induct)
  case 1
  show ?case by simp
next
  case (2 c)
  then show ?case by (simp add: loop_body_not_safe)
next
  case (3 c d cs)
  then have p: "\<not> safe_hit (verify c)" and rest: "\<forall>p\<in>set (d # cs). \<not> safe_hit (verify p)" 
    and le: "(idx + 1) + length (d # cs) = n + 1" by simp_all
  show ?case
    using "3.IH" [OF rest le] le p
    by (simp add: validate_loop_Cons_not_safe loop_body_not_safe del: validate_loop.simps)
qed

lemma status_not_safe_step:
  "\<not> safe_hit (verify p) \<Longrightarrow> best_status st \<noteq> Some (str_of ''safe'') \<Longrightarrow>
   best_status (snd (loop_body ir verify n idx p st)) \<noteq> Some (str_of ''safe'')"
  by (simp add: loop_body_not_safe status_literals)

lemma best_email_not_safe_on:
  "\<forall>p\<in>set ps. \<not> safe_hit (verify p) \<Longrightarrow> best_status st \<noteq> Some (str_of ''safe'') \<Longrightarrow>
   best_email (validate_loop True verify n idx ps st) =
     (if filter (\<lambda>p. risky_hit (verify p)) ps = [] then best_email st
      else Some (last (filter (\<lambda>p. risky_hit (verify p)) ps)))"
proof (induction ps arbitrary: idx st)
  case Nil
  show ?case by simp
next
  case (Cons p ps)
  then have p: "\<not> safe_hit (verify p)" and rest: "\<forall>p\<in>set ps. \<not> safe_hit (verify p)" by simp_all
  have st: "best_status (snd (loop_body True verify n idx p st)) \<noteq> Some (str_of ''safe'')"
    using p Cons.prems(2) by (rule status_not_safe_step)
  show ?case
    using Cons.IH [OF rest st, of "idx + 1"] p Cons.prems(2)
    by (simp add: validate_loop_Cons_not_safe loop_body_not_safe del: validate_loop.simps)
qed

lemma best_not_safe_off:
  "\<forall>p\<in>set ps. \<not> safe_hit (verify p) \<Longrightarrow>
   best_email (validate_loop False verify n idx ps st) = best_email st \<and>
   best_status (validate_loop False verify n idx ps st) = best_status st \<and>
   best_result (validate_loop False verify n idx ps st) = best_result st"
proof (induction ps arbitrary: idx st)
  case Nil
  show ?case by simp
next
  case (Cons p ps)
  then have p: "\<not> safe_hit (verify p)" and rest: "\<forall>p\<in>set ps. \<not> safe_hit (verify p)" by simp_all
  show ?case
    using Cons.IH [OF rest, of "idx + 1"] p 
    by (simp add: validate_loop_Cons_not_safe loop_body_not_safe del: validate_loop.simps)
qed

lemma sleeps_delays_between:
  "length (filter (\<lambda>e. e = Sleep) (delays_between cs)) = length cs - 1"
  by (induction cs rule: delays_between.induct) simp_all

lemma calls_delays_between:
  "filter (\<lambda>e. e \<noteq> Sleep) (delays_between cs) = map Validate cs"
  by (induction cs rule: delays_between.induct) simp_all

lemma last_delays_between:
  "cs \<noteq> [] \<Longrightarrow> delays_between cs \<noteq> [] \<and> last (delays_between cs) = Validate (last cs)"
  by (induction cs rule: delays_between.induct) simp_all

lemma search_no_safe:
  assumes "\<forall>p\<in>set cs. \<not> safe_hit (verify p)"
  shows "patterns_tested (search ir verify cs) = length cs"
    and "patterns_validated (search ir verify cs) =
           length (filter (\<lambda>p. smtp_deliverable (verify p)) cs)"
    and "events (search ir verify cs) = delays_between cs"
  using assms
  by (simp_all add: search_def tested_not_safe validated_not_safe events_not_safe_final
        initial_state_def)

lemma search_first_safe:
  assumes pre: "\<forall>p\<in>set pre. \<not> safe_hit (verify p)" and c: "safe_hit (verify c)"
  shows "search ir verify (pre @ c # rest) =
    (validate_loop ir verify (length (pre @ c # rest)) 1 pre initial_state)
      \<lparr>patterns_tested := length pre + 1,
       events := delays_between (pre @ [c]),
       patterns_validated := length (filter (\<lambda>p. smtp_deliverable (verify p)) pre) + 1,
       best_email := Some c, best_status := Some (str_of ''safe''),
       best_result := Some ((verify c)\<lparr>email := Some c\<rparr>)\<rparr>"
proof -
  let ?n = "length (pre @ c # rest)"
  let ?st = "validate_loop ir verify ?n 1 pre initial_state"
  have ev: "events ?st = concat (map (\<lambda>p. [Validate p, Sleep]) pre)"
    using events_not_safe_inner [OF pre, of 1 ?n ir initial_state]
    by (simp add: initial_state_def)
  have va: "patterns_validated ?st = length (filter (\<lambda>p. smtp_deliverable (verify p)) pre)"
    using validated_not_safe [OF pre, of ir ?n 1 initial_state]
    by (simp add: initial_state_def)
  have "search ir verify (pre @ c # rest) = validate_loop ir verify ?n (1 + length pre) (c # rest) ?st"
    unfolding search_def by (rule validate_loop_append [OF pre])
  also have "\<dots> = snd (loop_body ir verify ?n (1 + length pre) c ?st)"
    using c by (rule validate_loop_Cons_safe)
  finally show ?thesis
    using c ev va by (simp add: loop_body_safe delays_between_snoc)
qed

lemma first_safe_cases:
  obtains (none) "\<forall>p\<in>set cs. \<not> safe_hit (verify p)"
  | (some) pre c rest where "cs = pre @ c # rest" "\<forall>p\<in>set pre. \<not> safe_hit (verify p)" "safe_hit (verify c)"
proof (cases "\<exists>p\<in>set cs. safe_hit (verify p)")
  case True
  then obtain pre c rest where "cs = pre @ c # rest" "safe_hit (verify c)" "\<forall>p\<in>set pre. \<not> safe_hit (verify p)"
    using split_list_first_prop [of cs "\<lambda>p. safe_hit (verify p)"] by blast
  then show ?thesis using some by blast
next
  case False
  then show ?thesis using none by blast
qed

subsection \<open>The best candidate held is a valid hit\<close>

lemma best_ok_initial: "best_ok verify cs initial_state"
  by (simp add: best_ok_def initial_state_def)

lemma valid_hit_email [simp]: "valid_hit (r\<lparr>email := e\<rparr>) = valid_hit r"
  by (simp add: valid_hit_def)

lemma best_ok_cong:
  "best_result s' = best_result s \<Longrightarrow> best_email s' = best_email s \<Longrightarrow>
   best_status s' = best_status s \<Longrightarrow> best_ok verify cs s' = best_ok verify cs s"
  by (simp add: best_ok_def cong: option.case_cong)

lemma best_ok_set:
  "valid_hit (verify p) \<Longrightarrow> p \<in> set cs \<Longrightarrow>
   reachability (verify p) = str_of ''safe'' \<or> reachability (verify p) = str_of ''risky'' \<Longrightarrow>
   best_result s = Some ((verify p)\<lparr>email := Some p\<rparr>) \<Longrightarrow> best_email s = Some p \<Longrightarrow>
   best_status s = Some (reachability (verify p)) \<Longrightarrow> best_ok verify cs s"
  by (auto simp add: best_ok_def list_ex_iff)

lemma loop_body_keeps_best:
  assumes "\<not> safe_hit (verify p)"
    and "\<not> (ir \<and> risky_hit (verify p) \<and> best_status st \<noteq> Some (str_of ''safe''))"
  shows "best_result (snd (loop_body ir verify n idx p st)) = best_result st"
    and "best_email (snd (loop_body ir verify n idx p st)) = best_email st"
    and "best_status (snd (loop_body ir verify n idx p st)) = best_status st"
  unfolding loop_body_not_safe [where verify = verify and p = p, OF assms(1)] snd_conv if_not_P [OF assms(2)]
  by simp_all

lemma loop_body_takes_risky:
  assumes "\<not> safe_hit (verify p)"
    and "ir \<and> risky_hit (verify p) \<and> best_status st \<noteq> Some (str_of ''safe'')"
  shows "best_result (snd (loop_body ir verify n idx p st)) = Some ((verify p)\<lparr>email := Some p\<rparr>)"
    and "best_email (snd (loop_body ir verify n idx p st)) = Some p"
    and "best_status (snd (loop_body ir verify n idx p st)) = Some (str_of ''risky'')"
  unfolding loop_body_not_safe [where verify = verify and p = p, OF assms(1)] snd_conv if_P [OF assms(2)]
  by simp_all

lemma loop_body_takes_safe:
  assumes "safe_hit (verify p)"
  shows "best_result (snd (loop_body ir verify n idx p st)) = Some ((verify p)\<lparr>email := Some p\<rparr>)"
    and "best_email (snd (loop_body ir verify n idx p st)) = Some p"
    and "best_status (snd (loop_body ir verify n idx p st)) = Some (str_of ''safe'')"
  unfolding loop_body_safe [where verify = verify and p = p, OF assms] snd_conv
  by simp_all

lemma best_ok_step:
  assumes ok: "best_ok verify cs st" and p: "p \<in> set cs"
  shows "best_ok verify cs (snd (loop_body ir verify n idx p st))"
proof (cases "safe_hit (verify p)")
  case True
  then have hit: "valid_hit (verify p)" "reachability (verify p) = str_of ''safe''"
    by (simp_all add: safe_hit_def valid_hit_def status_literals)
  show ?thesis
    by (rule best_ok_set [where p = p])
       (simp_all add: hit p loop_body_takes_safe [where verify = verify and p = p, OF True])
next
  case False
  show ?thesis
  proof (cases "ir \<and> risky_hit (verify p) \<and> best_status st \<noteq> Some (str_of ''safe'')")
    case True
    then have hit: "valid_hit (verify p)" "reachability (verify p) = str_of ''risky''"
      by (simp_all add: risky_hit_def valid_hit_def status_literals)
    show ?thesis
      by (rule best_ok_set [where p = p])
         (simp_all add: hit p loop_body_takes_risky [where verify = verify and p = p, OF False True])
  next
    case no: False
    have "best_ok verify cs (snd (loop_body ir verify n idx p st)) = best_ok verify cs st"
      by (rule best_ok_cong) (simp_all add: loop_body_keeps_best [where verify = verify and p = p, OF False no])
    then show ?thesis using ok by simp
  qed
qed

lemma best_ok_loop_states:
  "best_ok verify cs st \<Longrightarrow> set ps \<subseteq> set cs \<Longrightarrow>
   \<forall>s\<in>set (loop_states ir verify n idx ps st). best_ok verify cs s"
proof (induction ps arbitrary: idx st)
  case Nil
  show ?case by simp
next
  case (Cons p ps)
  then have p: "p \<in> set cs" and rest: "set ps \<subseteq> set cs" by simp_all
  have step: "best_ok verify cs (snd (loop_body ir verify n idx p st))"
    using Cons.prems(1) p by (rule best_ok_step)
  show ?case
    using Cons.IH [OF step rest, of "idx + 1"] step
    by (cases "loop_body ir verify n idx p st") (auto split: flow.splits)
qed

lemma validate_loop_last_state:
  "validate_loop ir verify n idx ps st = last (st # loop_states ir verify n idx ps st)"
proof (induction ps arbitrary: idx st)
  case Nil
  show ?case by simp
next
  case (Cons p ps)
  show ?case
    using Cons.IH [of "idx + 1"]
    by (cases "loop_body ir verify n idx p st") (auto split: flow.splits)
qed

lemma best_ok_search: "best_ok verify cs (search ir verify cs)"
proof -
  have "\<forall>s\<in>set (search_states ir verify cs). best_ok verify cs s"
    using best_ok_loop_states [where st = initial_state and ps = cs and cs = cs
            and verify = verify and ir = ir and n = "length cs" and idx = 1]
    by (simp add: search_states_def best_ok_initial)
  moreover have "search ir verify cs = last (search_states ir verify cs)"
    by (simp add: search_def search_states_def validate_loop_last_state del: last.simps)
  moreover have "search_states ir verify cs \<noteq> []" by (simp add: search_states_def)
  ultimately show ?thesis by (metis last_in_set)
qed

lemma best_ok_status:
  "best_ok verify cs st \<Longrightarrow>
   or_default (best_status st) (str_of ''none_found'') \<in>
     {str_of ''safe'', str_of ''risky'', str_of ''none_found''}"
  by (auto simp add: best_ok_def or_default_def status_literals split: option.splits)

subsection \<open>Runs whose hits are all risky; failed requests\<close>

lemma best_not_safe_on:
  "\<forall>p\<in>set ps. \<not> safe_hit (verify p) \<Longrightarrow> best_status st \<noteq> Some (str_of ''safe'') \<Longrightarrow>
   best_status (validate_loop True verify n idx ps st) =
     (if filter (\<lambda>p. risky_hit (verify p)) ps = [] then best_status st
      else Some (str_of ''risky'')) \<and>
   best_result (validate_loop True verify n idx ps st) =
     (if filter (\<lambda>p. risky_hit (verify p)) ps = [] then best_result st
      else Some ((verify (last (filter (\<lambda>p. risky_hit (verify p)) ps)))
             \<lparr>email := Some (last (filter (\<lambda>p. risky_hit (verify p)) ps))\<rparr>))"
proof (induction ps arbitrary: idx st)
  case Nil
  show ?case by simp
next
  case (Cons p ps)
  then have p: "\<not> safe_hit (verify p)" and rest: "\<forall>p\<in>set ps. \<not> safe_hit (verify p)" by simp_all
  have st: "best_status (snd (loop_body True verify n idx p st)) \<noteq> Some (str_of ''safe'')"
    using p Cons.prems(2) by (rule status_not_safe_step)
  show ?case
    using Cons.IH [OF rest st, of "idx + 1"] p Cons.prems(2)
    by (simp add: validate_loop_Cons_not_safe loop_body_not_safe del: validate_loop.simps)
qed

lemma all_risky_no_safe:
  "\<forall>c\<in>set cs. smtp_deliverable (verify c) \<longrightarrow> reachability (verify c) = str_of ''risky'' \<Longrightarrow>
   \<forall>c\<in>set cs. \<not> safe_hit (verify c)"
  by (auto simp add: safe_hit_def status_literals)

lemma all_risky_filter:
  "\<forall>c\<in>set cs. smtp_deliverable (verify c) \<longrightarrow> reachability (verify c) = str_of ''risky'' \<Longrightarrow>
   filter (\<lambda>c. risky_hit (verify c)) cs = filter (\<lambda>c. smtp_deliverable (verify c)) cs"
  by (rule filter_cong) (auto simp add: risky_hit_def)


subsection \<open>Pattern lists\<close>

lemma length_slice_upto: "0 \<le> n \<Longrightarrow> length (slice_upto n xs) \<le> nat n"
  by (simp add: slice_upto_def)

lemma distinct_slice_upto: "distinct xs \<Longrightarrow> distinct (slice_upto n xs)"
  by (simp add: slice_upto_def)

lemma generate_email_patterns_empty:
  "strip U (str_lower U first_name) = [] \<or> strip U (str_lower U last_name) = [] \<or> domain = [] \<Longrightarrow>
   generate_email_patterns U m first_name last_name domain = []"
  by (auto simp add: generate_email_patterns_def Let_def)

lemma generate_email_patterns_nonempty:
  "strip U (str_lower U first_name) \<noteq> [] \<Longrightarrow> strip U (str_lower U last_name) \<noteq> [] \<Longrightarrow>
   domain \<noteq> [] \<Longrightarrow>
   generate_email_patterns U m first_name last_name domain =
     slice_upto m (first_seen (map (\<lambda>l. address l domain)
        (local_parts (strip U (str_lower U first_name)) (strip U (str_lower U last_name)))))"
  by (simp add: generate_email_patterns_def Let_def remove_duplicates_first_seen)

lemma distinct_generate_email_patterns:
  "distinct (generate_email_patterns U m first_name last_name domain)"
  by (simp add: generate_email_patterns_def Let_def remove_duplicates_first_seen
        distinct_slice_upto)

lemma length_generate_email_patterns:
  "0 \<le> m \<Longrightarrow> length (generate_email_patterns U m first_name last_name domain) \<le> nat m"
  by (simp add: generate_email_patterns_def Let_def length_slice_upto)


lemmas run_patterns =
  generate_email_patterns_def Let_def remove_duplicates_first_seen strip_def
  latin1_db_def latin1_lower_def latin1_isspace_def local_parts_def address_def at_sign_def
  slice_upto_def str_of_def




section \<open>The claims\<close>

text \<open>
  C2. The search loop stops at the first candidate whose result is safe and deliverable:
  if no candidate of \<open>pre\<close> is a safe hit and \<open>c\<close> is one, the run over
  \<open>pre @ c # rest\<close> ends with \<open>c\<close> as best candidate (status \<^verbatim>\<open>safe\<close>, its result
  stored), \<open>patterns_tested\<close> is the 1-based position of \<open>c\<close>, and the addresses
  passed to \<open>verify\<close> are exactly \<open>pre @ [c]\<close>: no candidate of \<open>rest\<close> is called.
\<close>

theorem search_stops_at_first_safe:
  assumes "\<forall>p\<in>set pre. \<not> safe_hit (verify p)" and "safe_hit (verify c)"
  shows "best_email (search ir verify (pre @ c # rest)) = Some c \<and>
         best_status (search ir verify (pre @ c # rest)) = Some (str_of ''safe'') \<and>
         best_result (search ir verify (pre @ c # rest)) = Some ((verify c)\<lparr>email := Some c\<rparr>) \<and>
         patterns_tested (search ir verify (pre @ c # rest)) = length pre + 1 \<and>
         filter (\<lambda>e. e \<noteq> Sleep) (events (search ir verify (pre @ c # rest))) =
           map Validate (pre @ [c])"
  by (simp add: search_first_safe [OF assms] calls_delays_between)

text \<open>
  The example of the claim: candidates A, B, C with A risky and deliverable, B and C
  safe and deliverable. The outcome is B, after two calls; C is never called.
\<close>

theorem search_stops_at_first_safe_witness:
  "\<not> safe_hit (abc_oracle (str_of ''a@x.io'')) \<and>
   risky_hit (abc_oracle (str_of ''a@x.io'')) \<and>
   safe_hit (abc_oracle (str_of ''b@x.io'')) \<and>
   safe_hit (abc_oracle (str_of ''c@x.io'')) \<and>
   best_email (search False abc_oracle
                 [str_of ''a@x.io'', str_of ''b@x.io'', str_of ''c@x.io'']) =
     Some (str_of ''b@x.io'') \<and>
   patterns_tested (search False abc_oracle
                      [str_of ''a@x.io'', str_of ''b@x.io'', str_of ''c@x.io'']) = 2 \<and>
   filter (\<lambda>e. e \<noteq> Sleep)
     (events (search False abc_oracle
                [str_of ''a@x.io'', str_of ''b@x.io'', str_of ''c@x.io''])) =
     [Validate (str_of ''a@x.io''), Validate (str_of ''b@x.io'')]"
  using search_stops_at_first_safe
          [of "[str_of ''a@x.io'']" abc_oracle "str_of ''b@x.io''" False "[str_of ''c@x.io'']"]
  by (simp add: abc_oracle_def safe_hit_def risky_hit_def str_of_def)

text \<open>
  C8. The rate-limit delay is applied between two consecutive calls and nowhere else:
  the events of a run are those of \<open>delays_between\<close> on the candidates tried (the first
  \<open>patterns_tested\<close> ones). Hence, for a non-empty candidate list, the number of delays
  is \<open>patterns_tested - 1\<close>, and the last event of the run is a call, never a delay:
  there is none after the last candidate of the list and none after a stop at a safe
  result.
\<close>

theorem delay_between_candidates_only:
  "events (search ir verify cs) =
     delays_between (take (patterns_tested (search ir verify cs)) cs) \<and>
   (cs \<noteq> [] \<longrightarrow>
      1 \<le> patterns_tested (search ir verify cs) \<and>
      length (filter (\<lambda>e. e = Sleep) (events (search ir verify cs))) =
        patterns_tested (search ir verify cs) - 1 \<and>
      last (events (search ir verify cs)) \<noteq> Sleep)"
proof (cases cs verify rule: first_safe_cases)
  case none
  then show ?thesis
    by (cases cs) (simp_all add: search_no_safe sleeps_delays_between last_delays_between)
next
  case (some pre c rest)
  have "search ir verify cs = search ir verify (pre @ c # rest)"
    using some(1) by simp
  then show ?thesis
    using some(1)
    by (simp add: search_first_safe [OF some(2,3)] sleeps_delays_between last_delays_between)
qed

theorem delay_between_candidates_only_witness:
  "[str_of ''a@x.io'', str_of ''b@x.io'', str_of ''c@x.io''] \<noteq> [] \<and>
   events (search True abc_oracle [str_of ''a@x.io'', str_of ''b@x.io'', str_of ''c@x.io'']) =
     [Validate (str_of ''a@x.io''), Sleep, Validate (str_of ''b@x.io'')] \<and>
   patterns_tested
     (search True abc_oracle [str_of ''a@x.io'', str_of ''b@x.io'', str_of ''c@x.io'']) = 2 \<and>
   length (filter (\<lambda>e. e = Sleep)
     (events (search True abc_oracle
                [str_of ''a@x.io'', str_of ''b@x.io'', str_of ''c@x.io'']))) = 1 \<and>
   events (search True risky_oracle [str_of ''a@x.io'', str_of ''b@x.io'']) =
     [Validate (str_of ''a@x.io''), Sleep, Validate (str_of ''b@x.io'')]"
  using delay_between_candidates_only
          [of True abc_oracle "[str_of ''a@x.io'', str_of ''b@x.io'', str_of ''c@x.io'']"]
  by (simp add: search_def loop_body_def abc_oracle_def risky_oracle_def initial_state_def
        rate_limit_def Let_def str_of_def)

text \<open>
  C6. In every state a run passes through (\<open>search_states\<close>: the initial state and the
  state after each iteration), either nothing is held as best, or the stored result is
  the reply to the stored candidate, a candidate of the list, and it is deliverable with
  a reachability other than \<^verbatim>\<open>invalid\<close>. The outcome of the run is the last of these
  states; consequently the \<^verbatim>\<open>validation_status\<close> written to the record of a lead is
  \<^verbatim>\<open>safe\<close>, \<^verbatim>\<open>risky\<close> or \<^verbatim>\<open>none_found\<close>.
\<close>

theorem best_is_always_a_valid_hit:
  "(\<forall>st\<in>set (search_states ir verify cs).
      case best_result st of
        None \<Rightarrow> best_email st = None \<and> best_status st = None
      | Some r \<Rightarrow>
          smtp_deliverable r \<and> reachability r \<noteq> str_of ''invalid'' \<and>
          (\<exists>c\<in>set cs. best_email st = Some c \<and> r = (verify c)\<lparr>email := Some c\<rparr>) \<and>
          best_status st = Some (reachability r)) \<and>
   search ir verify cs = last (search_states ir verify cs) \<and>
   rec_validation_status (build_record first_name last_name domain (search ir verify cs)) \<in>
     {str_of ''safe'', str_of ''risky'', str_of ''none_found''} \<and>
   (\<forall>r. validate_lead U max_patterns ir verify lead = Some r \<longrightarrow>
      rec_validation_status r \<in> {str_of ''safe'', str_of ''risky'', str_of ''none_found''})"
proof (intro conjI)
  have "\<forall>s\<in>set (search_states ir verify cs). best_ok verify cs s"
    using best_ok_loop_states [where st = initial_state and ps = cs and cs = cs
            and verify = verify and ir = ir and n = "length cs" and idx = 1]
    by (simp add: search_states_def best_ok_initial)
  then show "\<forall>st\<in>set (search_states ir verify cs).
      case best_result st of
        None \<Rightarrow> best_email st = None \<and> best_status st = None
      | Some r \<Rightarrow>
          smtp_deliverable r \<and> reachability r \<noteq> str_of ''invalid'' \<and>
          (\<exists>c\<in>set cs. best_email st = Some c \<and> r = (verify c)\<lparr>email := Some c\<rparr>) \<and>
          best_status st = Some (reachability r)"
    by (auto simp add: best_ok_def valid_hit_def list_ex_iff split: option.splits)
  show "search ir verify cs = last (search_states ir verify cs)"
    by (simp add: search_def search_states_def validate_loop_last_state del: last.simps)
  show "rec_validation_status (build_record first_name last_name domain (search ir verify cs)) \<in>
     {str_of ''safe'', str_of ''risky'', str_of ''none_found''}"
    using best_ok_status [OF best_ok_search [of verify cs ir]] by (simp add: build_record_def)
  show "\<forall>r. validate_lead U max_patterns ir verify lead = Some r \<longrightarrow>
      rec_validation_status r \<in> {str_of ''safe'', str_of ''risky'', str_of ''none_found''}"
  proof (intro allI impI)
    fix r assume "validate_lead U max_patterns ir verify lead = Some r"
    then obtain f l d cs where "r = build_record f l d (search ir verify cs)"
      by (cases lead) (auto simp add: validate_lead_def Let_def split: if_splits)
    then show "rec_validation_status r \<in> {str_of ''safe'', str_of ''risky'', str_of ''none_found''}"
      using best_ok_status [OF best_ok_search [of verify cs ir]] by (simp add: build_record_def)
  qed
qed

theorem best_is_always_a_valid_hit_witness:
  "search True risky_oracle [str_of ''a@x.io'', str_of ''b@x.io''] \<in>
     set (search_states True risky_oracle [str_of ''a@x.io'', str_of ''b@x.io'']) \<and>
   best_email (search True risky_oracle [str_of ''a@x.io'', str_of ''b@x.io'']) =
     Some (str_of ''b@x.io'') \<and>
   smtp_deliverable (risky_oracle (str_of ''b@x.io'')) \<and>
   reachability (risky_oracle (str_of ''b@x.io'')) \<noteq> str_of ''invalid'' \<and>
   rec_validation_status
     (build_record (str_of ''J'') (str_of ''S'') (str_of ''x.io'')
        (search True risky_oracle [str_of ''a@x.io'', str_of ''b@x.io''])) = str_of ''risky'' \<and>
   validate_lead latin1_db 20 True risky_oracle (str_of ''J'', str_of ''S'', str_of ''x.io'') \<noteq> None \<and>
   rec_validation_status
     (the (validate_lead latin1_db 20 True risky_oracle
             (str_of ''J'', str_of ''S'', str_of ''x.io''))) \<in>
     {str_of ''safe'', str_of ''risky'', str_of ''none_found''}"
proof -
  let ?cs = "[str_of ''a@x.io'', str_of ''b@x.io'']"
  let ?lead = "(str_of ''J'', str_of ''S'', str_of ''x.io'')"
  note inst = best_is_always_a_valid_hit
          [where ir = True and verify = risky_oracle and cs = ?cs
             and first_name = "str_of ''J''" and last_name = "str_of ''S''"
             and domain = "str_of ''x.io''" and U = latin1_db and max_patterns = 20
             and lead = ?lead]
  have run: "search True risky_oracle ?cs =
      \<lparr>best_email = Some (str_of ''b@x.io''), best_status = Some (str_of ''risky''),
       best_result = Some ((reply ''risky'' True)\<lparr>email := Some (str_of ''b@x.io'')\<rparr>),
       patterns_tested = 2, patterns_validated = 2,
       events = [Validate (str_of ''a@x.io''), Sleep, Validate (str_of ''b@x.io'')]\<rparr>"
    by (simp add: search_def loop_body_def risky_oracle_def initial_state_def rate_limit_def
          Let_def status_literals)
  have lead: "validate_lead latin1_db 20 True risky_oracle ?lead \<noteq> None"
    by (simp add: validate_lead_def Let_def strip_def latin1_db_def latin1_isspace_def str_of_def)
  have last: "search True risky_oracle ?cs = last (search_states True risky_oracle ?cs)"
    using inst by (elim conjE)
  have "search_states True risky_oracle ?cs \<noteq> []"
    by (simp add: search_states_def)
  then have mem: "search True risky_oracle ?cs \<in> set (search_states True risky_oracle ?cs)"
    unfolding last by (rule last_in_set)
  have status: "rec_validation_status
       (the (validate_lead latin1_db 20 True risky_oracle ?lead)) \<in>
       {str_of ''safe'', str_of ''risky'', str_of ''none_found''}"
  proof -
    from lead obtain r where r: "validate_lead latin1_db 20 True risky_oracle ?lead = Some r"
      by blast
    from inst have "\<forall>r. validate_lead latin1_db 20 True risky_oracle ?lead = Some r \<longrightarrow>
        rec_validation_status r \<in> {str_of ''safe'', str_of ''risky'', str_of ''none_found''}"
      by (elim conjE)
    with r have "rec_validation_status r \<in> {str_of ''safe'', str_of ''risky'', str_of ''none_found''}"
      by blast
    then show ?thesis unfolding r option.sel .
  qed
  have rec: "rec_validation_status
     (build_record (str_of ''J'') (str_of ''S'') (str_of ''x.io'')
        (search True risky_oracle ?cs)) = str_of ''risky''"
    unfolding run by (simp add: build_record_def or_default_def status_literals)
  have email: "best_email (search True risky_oracle ?cs) = Some (str_of ''b@x.io'')"
    unfolding run by simp
  have hit: "smtp_deliverable (risky_oracle (str_of ''b@x.io''))"
    "reachability (risky_oracle (str_of ''b@x.io'')) \<noteq> str_of ''invalid''"
    by (simp_all add: risky_oracle_def status_literals)
  from mem email hit rec lead status show ?thesis by (intro conjI)
qed

text \<open>
  C9. When every deliverable reply of a candidate list is \<^verbatim>\<open>risky\<close> and risky addresses
  are not accepted (\<^verbatim>\<open>INCLUDE_RISKY\<close> false), the run ends with no best candidate and no
  best result, the record reports an empty address and the status \<^verbatim>\<open>none_found\<close>,
  \<open>patterns_validated\<close> is the number of deliverable risky candidates, and every
  candidate was tested.
\<close>

theorem risky_never_kept_when_disabled:
  assumes "\<forall>c\<in>set cs. smtp_deliverable (verify c) \<longrightarrow> reachability (verify c) = str_of ''risky''"
  shows "best_email (search False verify cs) = None \<and>
         best_result (search False verify cs) = None \<and>
         rec_validated_email (build_record first_name last_name domain (search False verify cs)) = [] \<and>
         rec_validation_status (build_record first_name last_name domain (search False verify cs)) =
           str_of ''none_found'' \<and>
         patterns_validated (search False verify cs) =
           length (filter (\<lambda>c. risky_hit (verify c)) cs) \<and>
         patterns_tested (search False verify cs) = length cs"
proof -
  have no_safe: "\<forall>c\<in>set cs. \<not> safe_hit (verify c)"
    using assms by (rule all_risky_no_safe)
  have best: "best_email (search False verify cs) = None"
    "best_status (search False verify cs) = None"
    "best_result (search False verify cs) = None"
    using best_not_safe_off [OF no_safe, of "length cs" 1 initial_state]
    by (simp_all add: search_def initial_state_def)
  show ?thesis
    using best
    by (simp add: search_no_safe [OF no_safe] all_risky_filter [OF assms] build_record_def
          or_default_def)
qed

text \<open>
  The run over two addresses, both answered risky and deliverable, with risky addresses
  not accepted.
\<close>

theorem risky_never_kept_when_disabled_witness:
  "smtp_deliverable (risky_oracle (str_of ''a@x.io'')) \<and>
   reachability (risky_oracle (str_of ''a@x.io'')) = str_of ''risky'' \<and>
   smtp_deliverable (risky_oracle (str_of ''b@x.io'')) \<and>
   reachability (risky_oracle (str_of ''b@x.io'')) = str_of ''risky'' \<and>
   best_email (search False risky_oracle [str_of ''a@x.io'', str_of ''b@x.io'']) = None \<and>
   rec_validation_status
     (build_record (str_of ''J'') (str_of ''S'') (str_of ''x.io'')
        (search False risky_oracle [str_of ''a@x.io'', str_of ''b@x.io''])) =
     str_of ''none_found'' \<and>
   patterns_validated (search False risky_oracle [str_of ''a@x.io'', str_of ''b@x.io'']) = 2"
  using risky_never_kept_when_disabled
          [of "[str_of ''a@x.io'', str_of ''b@x.io'']" risky_oracle
              "str_of ''J''" "str_of ''S''" "str_of ''x.io''"]
  by (simp add: risky_oracle_def risky_hit_def)

text \<open>
  C1. The claim as stated (the first risky and deliverable candidate is kept, later ones
  never overwrite it) does not hold of the loop: the guard \<^verbatim>\<open>best_status != "safe"\<close> is
  true whenever the branch is reached, so each later risky hit replaces the one held.
  With two addresses both answered risky and deliverable, the best candidate is the
  first address after the first iteration and the second address at the end.
\<close>

theorem first_risky_is_overwritten:
  "risky_hit (risky_oracle (str_of ''a@x.io'')) \<and>
   risky_hit (risky_oracle (str_of ''b@x.io'')) \<and>
   str_of ''a@x.io'' \<noteq> str_of ''b@x.io'' \<and>
   map best_email (search_states True risky_oracle [str_of ''a@x.io'', str_of ''b@x.io'']) =
     [None, Some (str_of ''a@x.io''), Some (str_of ''b@x.io'')] \<and>
   best_email (search True risky_oracle [str_of ''a@x.io'', str_of ''b@x.io'']) =
     Some (str_of ''b@x.io'') \<and>
   best_email (search True risky_oracle [str_of ''a@x.io'', str_of ''b@x.io'']) \<noteq>
     Some (str_of ''a@x.io'')"
  by (simp add: search_def search_states_def loop_body_def risky_oracle_def risky_hit_def
        initial_state_def rate_limit_def Let_def str_of_def)

text \<open>
  C1, amended. When every deliverable reply of a candidate list is \<^verbatim>\<open>risky\<close> and risky
  addresses are accepted, the run ends with the last risky and deliverable candidate as
  best candidate (none if there is no such candidate), with status \<^verbatim>\<open>risky\<close>, and every
  candidate was tested.
\<close>

theorem last_risky_kept_when_enabled:
  assumes "\<forall>c\<in>set cs. smtp_deliverable (verify c) \<longrightarrow> reachability (verify c) = str_of ''risky''"
  shows "best_email (search True verify cs) =
           (if filter (\<lambda>c. risky_hit (verify c)) cs = [] then None
            else Some (last (filter (\<lambda>c. risky_hit (verify c)) cs))) \<and>
         best_status (search True verify cs) =
           (if filter (\<lambda>c. risky_hit (verify c)) cs = [] then None
            else Some (str_of ''risky'')) \<and>
         patterns_tested (search True verify cs) = length cs"
proof -
  have no_safe: "\<forall>c\<in>set cs. \<not> safe_hit (verify c)"
    using assms by (rule all_risky_no_safe)
  have init: "best_status initial_state \<noteq> Some (str_of ''safe'')"
    by (simp add: initial_state_def)
  have e: "best_email (search True verify cs) =
           (if filter (\<lambda>c. risky_hit (verify c)) cs = [] then None
            else Some (last (filter (\<lambda>c. risky_hit (verify c)) cs)))"
    unfolding search_def best_email_not_safe_on [OF no_safe init]
    by (simp add: initial_state_def)
  have s: "best_status (search True verify cs) =
           (if filter (\<lambda>c. risky_hit (verify c)) cs = [] then None
            else Some (str_of ''risky''))"
    unfolding search_def using best_not_safe_on [OF no_safe init, of "length cs" 1]
    by (simp add: initial_state_def)
  show ?thesis
    using e s search_no_safe(1) [OF no_safe, of True] by (intro conjI)
qed

text \<open>
  The same two addresses: the second one is the best candidate of the run.
\<close>

theorem last_risky_kept_when_enabled_witness:
  "smtp_deliverable (risky_oracle (str_of ''a@x.io'')) \<and>
   reachability (risky_oracle (str_of ''a@x.io'')) = str_of ''risky'' \<and>
   smtp_deliverable (risky_oracle (str_of ''b@x.io'')) \<and>
   reachability (risky_oracle (str_of ''b@x.io'')) = str_of ''risky'' \<and>
   best_email (search True risky_oracle [str_of ''a@x.io'', str_of ''b@x.io'']) =
     Some (str_of ''b@x.io'') \<and>
   best_status (search True risky_oracle [str_of ''a@x.io'', str_of ''b@x.io'']) =
     Some (str_of ''risky'')"
  using last_risky_kept_when_enabled
          [of "[str_of ''a@x.io'', str_of ''b@x.io'']" risky_oracle]
  by (simp add: risky_oracle_def risky_hit_def)



text \<open>
  C5. The name variants are, in this order and with later duplicates of a pair dropped:
  the pair as given, the pair with the hyphens of the first name removed, the pair with
  the first name cut before its first hyphen, and, exactly when \<open>first + last\<close> has a
  code point above 127, the pair of both names decomposed (NFD) with the marks of
  category \<^verbatim>\<open>Mn\<close> removed. The result has no duplicates.
\<close>

theorem name_variants_in_order:
  "generate_name_variants U first last' =
     first_seen
       ([(first, last'),
         (filter (\<lambda>c. c \<noteq> 45) first, last'),
         (takeWhile (\<lambda>c. c \<noteq> 45) first, last')] @
        (if \<exists>c\<in>set (first @ last'). 127 < c
         then [(filter (\<lambda>c. \<not> category_Mn U c) (normalize_NFD U first),
                filter (\<lambda>c. \<not> category_Mn U c) (normalize_NFD U last'))]
         else [])) \<and>
   distinct (generate_name_variants U first last') \<and>
   set (generate_name_variants U first last') =
     {(first, last'), (remove_hyphens first, last'), (before_first_hyphen first, last')} \<union>
     (if has_non_ascii (first @ last') then {(ascii_fold U first, ascii_fold U last')} else {})"
  by (simp add: generate_name_variants_def Let_def remove_duplicates_first_seen
        remove_hyphens_def before_first_hyphen_def hyphen_def ascii_fold_def has_non_ascii_def
        list_ex_iff del: first_seen.simps)

text \<open>
  The names \<^verbatim>\<open>Mar\<close>U+00ED\<^verbatim>\<open>a\<close> and \<^verbatim>\<open>Jos\<close>U+00E9 yield the pair as given and the
  pair \<^verbatim>\<open>("Maria", "Jose")\<close>; \<^verbatim>\<open>Jean-Pierre\<close> yields three variants.
\<close>

theorem name_variants_in_order_witness:
  "127 < (237 :: nat) \<and>
   generate_name_variants latin1_db [77, 97, 114, 237, 97] [74, 111, 115, 233] =
     [([77, 97, 114, 237, 97], [74, 111, 115, 233]), (str_of ''Maria'', str_of ''Jose'')] \<and>
   generate_name_variants latin1_db (str_of ''Jean-Pierre'') (str_of ''Dupont'') =
     [(str_of ''Jean-Pierre'', str_of ''Dupont''), (str_of ''JeanPierre'', str_of ''Dupont''),
      (str_of ''Jean'', str_of ''Dupont'')]"
  using name_variants_in_order [of latin1_db "[77, 97, 114, 237, 97]" "[74, 111, 115, 233]"]
        name_variants_in_order [of latin1_db "str_of ''Jean-Pierre''" "str_of ''Dupont''"]
  by (simp add: latin1_db_def latin1_nfd_def latin1_decomposition_def str_of_def)

text \<open>
  C3. When the first and the last name are non-empty (after lower-casing and trimming,
  which is what the source tests) and the domain is non-empty, the result is built from
  the lower-cased and trimmed names: the nine addresses in the fixed order, with later
  duplicates dropped, cut by the slice \<^verbatim>\<open>[:MAX_PATTERNS_PER_LEAD]\<close>. It has no
  duplicates, and at most \<open>m\<close> entries for a setting \<open>m\<close> that is not negative.
\<close>

theorem nine_patterns_in_priority_order:
  assumes "strip U (str_lower U first_name) \<noteq> []"
    and "strip U (str_lower U last_name) \<noteq> []"
    and "domain \<noteq> []"
  shows "generate_email_patterns U m first_name last_name domain =
           slice_upto m (first_seen (map (\<lambda>l. l @ str_of ''@'' @ domain)
             (local_parts (strip U (str_lower U first_name)) (strip U (str_lower U last_name))))) \<and>
         local_parts (strip U (str_lower U first_name)) (strip U (str_lower U last_name)) =
           [strip U (str_lower U first_name),
            strip U (str_lower U first_name) @ str_of ''.'' @ strip U (str_lower U last_name),
            strip U (str_lower U first_name) @ strip U (str_lower U last_name),
            [hd (strip U (str_lower U first_name))] @ str_of ''.'' @ strip U (str_lower U last_name),
            [hd (strip U (str_lower U first_name))] @ strip U (str_lower U last_name),
            strip U (str_lower U first_name) @ str_of ''_'' @ strip U (str_lower U last_name),
            strip U (str_lower U first_name) @ str_of ''-'' @ strip U (str_lower U last_name),
            strip U (str_lower U first_name) @ str_of ''.'' @ [hd (strip U (str_lower U last_name))],
            strip U (str_lower U last_name) @ str_of ''.'' @ strip U (str_lower U first_name)] \<and>
         distinct (generate_email_patterns U m first_name last_name domain) \<and>
         (0 \<le> m \<longrightarrow> length (generate_email_patterns U m first_name last_name domain) \<le> nat m)"
proof -
  have t: "take 1 s = [hd s]" if "s \<noteq> []" for s :: str
    using that by (cases s) simp_all
  have a: "(\<lambda>l. address l domain) = (\<lambda>l. l @ str_of ''@'' @ domain)"
    by (simp add: address_def at_sign_def str_of_def fun_eq_iff)
  have 1: "generate_email_patterns U m first_name last_name domain =
           slice_upto m (first_seen (map (\<lambda>l. l @ str_of ''@'' @ domain)
             (local_parts (strip U (str_lower U first_name)) (strip U (str_lower U last_name)))))"
    using generate_email_patterns_nonempty [OF assms, of m] unfolding a .
  have 2: "local_parts (strip U (str_lower U first_name)) (strip U (str_lower U last_name)) =
           [strip U (str_lower U first_name),
            strip U (str_lower U first_name) @ str_of ''.'' @ strip U (str_lower U last_name),
            strip U (str_lower U first_name) @ strip U (str_lower U last_name),
            [hd (strip U (str_lower U first_name))] @ str_of ''.'' @ strip U (str_lower U last_name),
            [hd (strip U (str_lower U first_name))] @ strip U (str_lower U last_name),
            strip U (str_lower U first_name) @ str_of ''_'' @ strip U (str_lower U last_name),
            strip U (str_lower U first_name) @ str_of ''-'' @ strip U (str_lower U last_name),
            strip U (str_lower U first_name) @ str_of ''.'' @ [hd (strip U (str_lower U last_name))],
            strip U (str_lower U last_name) @ str_of ''.'' @ strip U (str_lower U first_name)]"
    unfolding local_parts_def t [OF assms(1)] t [OF assms(2)] ..
  have 3: "0 \<le> m \<longrightarrow> length (generate_email_patterns U m first_name last_name domain) \<le> nat m"
    by (simp add: length_generate_email_patterns)
  from 1 2 distinct_generate_email_patterns 3 show ?thesis by (intro conjI)
qed

text \<open>
  The patterns of \<^verbatim>\<open>john\<close>, \<^verbatim>\<open>smith\<close> at \<^verbatim>\<open>acme.com\<close>.
\<close>

theorem nine_patterns_in_priority_order_witness:
  "strip latin1_db (str_lower latin1_db (str_of ''john'')) = str_of ''john'' \<and>
   strip latin1_db (str_lower latin1_db (str_of ''smith'')) = str_of ''smith'' \<and>
   generate_email_patterns latin1_db 20 (str_of ''john'') (str_of ''smith'') (str_of ''acme.com'') =
     [str_of ''john@acme.com'', str_of ''john.smith@acme.com'', str_of ''johnsmith@acme.com'',
      str_of ''j.smith@acme.com'', str_of ''jsmith@acme.com'', str_of ''john_smith@acme.com'',
      str_of ''john-smith@acme.com'', str_of ''john.s@acme.com'', str_of ''smith.john@acme.com'']"
  using nine_patterns_in_priority_order
          [of latin1_db "str_of ''john''" "str_of ''smith''" "str_of ''acme.com''" 20]
  by (simp add: run_patterns)

text \<open>
  C4. The claim as stated does not hold for the domain: \<open>generate_email_patterns\<close> tests
  \<^verbatim>\<open>not domain\<close> on the domain as passed, without trimming it, so a domain of two
  spaces yields the nine patterns.
\<close>

theorem whitespace_domain_yields_patterns:
  "strip latin1_db (str_of ''  '') = [] \<and>
   generate_email_patterns latin1_db 20 (str_of ''john'') (str_of ''smith'') (str_of ''  '') =
     [str_of ''john@  '', str_of ''john.smith@  '', str_of ''johnsmith@  '',
      str_of ''j.smith@  '', str_of ''jsmith@  '', str_of ''john_smith@  '',
      str_of ''john-smith@  '', str_of ''john.s@  '', str_of ''smith.john@  '']"
  by (simp add: run_patterns)

text \<open>
  C4, amended. The result is empty whenever the first or the last name is empty after
  lower-casing and trimming, or the domain is empty as passed. A domain that is empty
  after trimming is caught by the caller instead: \<open>validate_lead\<close> trims the three fields
  and skips the lead when one of them is empty.
\<close>

theorem no_patterns_for_an_empty_field:
  "(strip U (str_lower U first_name) = [] \<or> strip U (str_lower U last_name) = [] \<or> domain = [] \<longrightarrow>
      generate_email_patterns U m first_name last_name domain = []) \<and>
   (strip U raw_first = [] \<or> strip U raw_last = [] \<or> strip U raw_domain = [] \<longrightarrow>
      validate_lead U m ir verify (raw_first, raw_last, raw_domain) = None)"
  by (simp add: generate_email_patterns_empty validate_lead_def Let_def)

text \<open>
  A first name of two spaces; a lead whose domain is two spaces.
\<close>

theorem no_patterns_for_an_empty_field_witness:
  "strip latin1_db (str_lower latin1_db (str_of ''  '')) = [] \<and>
   generate_email_patterns latin1_db 20 (str_of ''  '') (str_of ''Doe'') (str_of ''acme.com'') = [] \<and>
   strip latin1_db (str_of ''  '') = [] \<and>
   validate_lead latin1_db 20 False risky_oracle (str_of ''John'', str_of ''Doe'', str_of ''  '') = None"
  using no_patterns_for_an_empty_field
          [of latin1_db "str_of ''  ''" "str_of ''Doe''" "str_of ''acme.com''" 20
              "str_of ''John''" "str_of ''Doe''" "str_of ''  ''" False risky_oracle]
  by (simp add: strip_def latin1_db_def latin1_lower_def latin1_isspace_def str_of_def)



end
